theory Spec2Isabelle
  imports Complex_Main "HOL-Library.Sublist" "HOL-Library.Multiset"
begin

section \<open>Python values\<close>

text \<open>
  A Python \<open>str\<close> is a sequence of Unicode code points, so it is modelled as a list of
  natural numbers; \<open>ascii\<close> turns an ASCII literal into such a list. Python floats are
  modelled as exact reals: rounding, overflow, infinities and NaN are outside the model,
  and every statement below about scores, weights and thresholds is a statement about
  exact arithmetic.
\<close>

type_synonym pystr = "nat list"

definition ascii :: "string \<Rightarrow> pystr" where
  "ascii s = map of_char s"

datatype error = ValueError pystr | AxisError

text \<open>
  \<open>str.isspace\<close> for one code point (CPython's \<open>_PyUnicode_IsWhitespace\<close>); it is
  the set that \<open>str.strip()\<close> removes and that \<open>\s\<close> matches in a \<open>str\<close> pattern.
\<close>

definition isspace :: "nat \<Rightarrow> bool" where
  "isspace c \<longleftrightarrow>
     (9 \<le> c \<and> c \<le> 13) \<or> (28 \<le> c \<and> c \<le> 32) \<or> c = 133 \<or> c = 160 \<or> c = 5760 \<or>
     (8192 \<le> c \<and> c \<le> 8202) \<or> c = 8232 \<or> c = 8233 \<or> c = 8239 \<or> c = 8287 \<or>
     c = 12288"

definition strip :: "pystr \<Rightarrow> pystr" where
  "strip s = rev (dropWhile isspace (rev (dropWhile isspace s)))"

text \<open>\<open>s.replace(old, new)\<close> for a one-character \<open>old\<close>.\<close>

definition replace :: "nat \<Rightarrow> pystr \<Rightarrow> pystr \<Rightarrow> pystr" where
  "replace old new s = concat (map (\<lambda>c. if c = old then new else [c]) s)"

text \<open>
  The table of Unicode decimal digits (category Nd) belongs to the Python runtime, not to
  the repository. It is a parameter \<open>D\<close> of everything that reads digits: \<open>D c\<close> is
  the digit value of code point \<open>c\<close>, or \<open>None\<close> when \<open>c\<close> is no decimal digit.
  \<open>ascii_decimal\<close> is its restriction to ASCII.
\<close>

type_synonym decimal = "nat \<Rightarrow> nat option"

definition ascii_decimal :: decimal where
  "ascii_decimal c = (if 48 \<le> c \<and> c \<le> 57 then Some (c - 48) else None)"

definition ascii_digits :: "decimal \<Rightarrow> bool" where
  "ascii_digits D \<longleftrightarrow> (\<forall>c < 128. D c = ascii_decimal c)"

section \<open>Regular expressions of \<open>parse_threshold\<close>\<close>

text \<open>
  Every pattern of \<open>parse_threshold\<close> is a sequence of one-character classes, each with
  a greedy quantifier, some of them inside a capturing group. \<open>re.search\<close> is the
  backtracking matcher: leftmost start, and at each atom the longest run first.
\<close>

datatype cls = Lit nat | OneOf "nat list" | Space | Digit

definition isdecimal :: "decimal \<Rightarrow> nat \<Rightarrow> bool" where
  "isdecimal D c \<longleftrightarrow> D c \<noteq> None"

datatype quant = One | Opt | Star | Plus

type_synonym atom = "nat \<times> cls \<times> quant"

fun in_cls :: "decimal \<Rightarrow> cls \<Rightarrow> nat \<Rightarrow> bool" where
  "in_cls D (Lit a) c = (c = a)"
| "in_cls D (OneOf as) c = (c \<in> set as)"
| "in_cls D Space c = isspace c"
| "in_cls D Digit c = isdecimal D c"

text \<open>The repetition counts a quantifier tries, in order, when \<open>n\<close> characters fit.\<close>

fun counts :: "quant \<Rightarrow> nat \<Rightarrow> nat list" where
  "counts One n = (if 1 \<le> n then [1] else [])"
| "counts Opt n = (if 1 \<le> n then [1, 0] else [0])"
| "counts Star n = rev [0..<Suc n]"
| "counts Plus n = rev [1..<Suc n]"

fun first_some :: "('a \<Rightarrow> 'b option) \<Rightarrow> 'a list \<Rightarrow> 'b option" where
  "first_some f [] = None"
| "first_some f (k # ks) = (case f k of Some r \<Rightarrow> Some r | None \<Rightarrow> first_some f ks)"

text \<open>
  A match is the list of the texts the atoms consumed, each with its atom's group number
  (0 for an atom outside every group).
\<close>

type_synonym rmatch = "(nat \<times> pystr) list"

fun match_here :: "decimal \<Rightarrow> atom list \<Rightarrow> pystr \<Rightarrow> rmatch option" where
  "match_here D [] s = Some []"
| "match_here D ((g, c, q) # as) s =
     first_some
       (\<lambda>k. map_option (\<lambda>r. (g, take k s) # r) (match_here D as (drop k s)))
       (counts q (length (takeWhile (in_cls D c) s)))"

fun re_search :: "decimal \<Rightarrow> atom list \<Rightarrow> pystr \<Rightarrow> rmatch option" where
  "re_search D p [] = match_here D p []"
| "re_search D p (c # cs) =
     (case match_here D p (c # cs) of Some r \<Rightarrow> Some r | None \<Rightarrow> re_search D p cs)"

definition match_group :: "rmatch \<Rightarrow> nat \<Rightarrow> pystr" where
  "match_group m g = concat (map snd (filter (\<lambda>(h, t). h = g) m))"

text \<open>
  \<open>float(t)\<close> on a text \<open>t\<close> matched by \<open>\d+\.?\d*\<close>, the only texts the source
  converts: on them \<open>float\<close> does not raise.
\<close>

definition digit :: "decimal \<Rightarrow> nat \<Rightarrow> nat" where
  "digit D c = (case D c of Some d \<Rightarrow> d | None \<Rightarrow> 0)"

definition digits_value :: "decimal \<Rightarrow> pystr \<Rightarrow> nat" where
  "digits_value D ds = foldl (\<lambda>a c. 10 * a + digit D c) 0 ds"

definition py_float :: "decimal \<Rightarrow> pystr \<Rightarrow> real" where
  "py_float D t =
     (let ip = takeWhile (\<lambda>c. c \<noteq> 46) t;
          fp = drop 1 (dropWhile (\<lambda>c. c \<noteq> 46) t)
      in real (digits_value D ip) + real (digits_value D fp) / 10 ^ length fp)"

section \<open>\<open>parse_threshold\<close>\<close>

definition number :: "nat \<Rightarrow> atom list" where
  "number g = [(g, Digit, Plus), (g, Lit 46, Opt), (g, Digit, Star)]"

definition pattern1 :: "atom list" where
  "pattern1 = [(1, OneOf [60, 62], One), (0, Space, Star), (0, Lit 61, One), (0, Space, Star)]
     @ number 2"

definition pattern2 :: "atom list" where
  "pattern2 = [(1, OneOf [60, 62], One), (0, Space, Star)] @ number 2"

definition pattern3 :: "atom list" where
  "pattern3 = [(0, Lit 40, One), (1, OneOf [60, 62], One), (1, Lit 61, Opt), (0, Space, Star)]
     @ number 2"

definition extractor1 :: "decimal \<Rightarrow> rmatch \<Rightarrow> pystr \<times> real" where
  "extractor1 D m = (match_group m 1 @ ascii ''='', py_float D (match_group m 2))"

definition extractor2 :: "decimal \<Rightarrow> rmatch \<Rightarrow> pystr \<times> real" where
  "extractor2 D m = (match_group m 1, py_float D (match_group m 2))"

definition extractor3 :: "decimal \<Rightarrow> rmatch \<Rightarrow> pystr \<times> real" where
  "extractor3 D m =
     (match_group m 1 @ (if 61 \<in> set (match_group m 1) then ascii ''='' else []), py_float D (match_group m 2))"

definition patterns :: "decimal \<Rightarrow> (atom list \<times> (rmatch \<Rightarrow> pystr \<times> real)) list" where
  "patterns D = [(pattern1, extractor1 D), (pattern2, extractor2 D), (pattern3, extractor3 D)]"

text \<open>The block "Normalizar operadores" after a match.\<close>

definition normalize_op :: "pystr \<Rightarrow> pystr" where
  "normalize_op op =
     (if op = ascii ''<='' \<or> op = [8804] then ascii ''<=''
      else if op = ascii ''>='' \<or> op = [8805] then ascii ''>=''
      else op)"

text \<open>The loop over \<open>patterns\<close>: the first pattern that matches returns.\<close>

fun try_patterns ::
  "decimal \<Rightarrow> (atom list \<times> (rmatch \<Rightarrow> pystr \<times> real)) list \<Rightarrow> pystr \<Rightarrow> (pystr \<times> real) option"
where
  "try_patterns D [] s = None"
| "try_patterns D ((p, extractor) # ps) s =
     (case re_search D p s of
        Some m \<Rightarrow> (case extractor m of (op, val) \<Rightarrow> Some (normalize_op op, val))
      | None \<Rightarrow> try_patterns D ps s)"

text \<open>
  \<open>normalized\<close> is the text the patterns are searched in: stripped, with the
  glyphs U+2264 and U+2265 replaced by their ASCII spellings.
  The argument is \<open>None\<close> for a missing cell (\<open>pd.isna\<close>) and \<open>Some\<close> of the text
  otherwise; the result \<open>None\<close> is the pair \<open>(None, None)\<close>.
\<close>

definition normalized :: "pystr \<Rightarrow> pystr" where
  "normalized u = replace 8805 (ascii ''>='') (replace 8804 (ascii ''<='') (strip u))"

definition parse_threshold :: "decimal \<Rightarrow> pystr option \<Rightarrow> (pystr \<times> real) option" where
  "parse_threshold D umbral_str =
     (case umbral_str of
        None \<Rightarrow> None
      | Some u \<Rightarrow>
          if u = [] then None
          else
            let s = normalized u in
            (case try_patterns D (patterns D) s of
               Some r \<Rightarrow> Some r
             | None \<Rightarrow>
                 (case re_search D (number 1) s of
                    Some m \<Rightarrow> Some (ascii ''>='', py_float D (match_group m 1))
                  | None \<Rightarrow> None)))"

section \<open>\<open>check_condition\<close>\<close>

definition check_condition :: "real option \<Rightarrow> pystr \<Rightarrow> real \<Rightarrow> error + bool" where
  "check_condition v op threshold =
     (case v of
        None \<Rightarrow> Inr False
      | Some x \<Rightarrow>
          if op = ascii ''<'' then Inr (x < threshold)
          else if op = ascii ''<='' then Inr (x \<le> threshold)
          else if op = ascii ''>'' then Inr (x > threshold)
          else if op = ascii ''>='' then Inr (x \<ge> threshold)
          else Inl (ValueError (ascii ''Operador no soportado: '' @ op)))"

text \<open>
  The facts about the table of decimal digits that the proofs use, all true of Unicode's:
  it is right on ASCII, no whitespace character is a decimal digit, and neither are
  \<open>U+2264\<close> and \<open>U+2265\<close>.
\<close>

definition unicode_decimal :: "decimal \<Rightarrow> bool" where
  "unicode_decimal D \<longleftrightarrow>
     ascii_digits D \<and> (\<forall>c. isspace c \<longrightarrow> D c = None) \<and> D 8804 = None \<and> D 8805 = None"

text \<open>
  The specification's "bare number", written without the matcher: skip to the first decimal
  digit, take the digits, and if a dot follows them, the dot and the digits after it.
\<close>

definition first_number :: "decimal \<Rightarrow> pystr \<Rightarrow> pystr" where
  "first_number D s =
     (let t = dropWhile (\<lambda>c. \<not> isdecimal D c) s;
          ip = takeWhile (isdecimal D) t;
          r = dropWhile (isdecimal D) t
      in case r of
           [] \<Rightarrow> ip
         | d # r' \<Rightarrow> if d = 46 then ip @ [46] @ takeWhile (isdecimal D) r' else ip)"

text \<open>The operators \<open>check_condition\<close> accepts.\<close>

definition valid_ops :: "pystr set" where
  "valid_ops = {ascii ''<'', ascii ''<='', ascii ''>'', ascii ''>=''}"

section \<open>Strategy weights\<close>

text \<open>
  An entry of a strategy's rule list is the dict \<open>{"indicator": ..., "weight": ...}\<close>.
  \<open>strategies_config\<close> is a dict in insertion order, modelled as a list of pairs of a
  strategy name and its rule list. \<open>normalize_strategy_weights\<close> updates the dicts in
  place; the model returns the updated configuration. (The loader builds one fresh dict per
  rule, so no dict is shared between two places of the configuration.)
\<close>

record rule =
  indicator :: pystr
  weight :: real

type_synonym strategies_config = "(pystr \<times> rule list) list"

definition normalize_strategy_weights :: "strategies_config \<Rightarrow> strategies_config" where
  "normalize_strategy_weights strategies_config =
     map (\<lambda>(est, rules).
            let total = sum_list (map weight rules) in
            if total = 0 then (est, rules)
            else (est, map (\<lambda>r. r\<lparr>weight := weight r / total\<rparr>) rules))
         strategies_config"

section \<open>\<open>build_indicator_matrix\<close>\<close>

text \<open>
  \<open>indicator_values\<close> maps an indicator name to its reading; a key that is absent and a
  key bound to \<open>None\<close> read the same through \<open>.get\<close>, so both are \<open>None\<close> here.
  An entry of \<open>indicator_thresholds\<close> is a dict read with \<open>.get("op", ">=")\<close> and
  \<open>.get("threshold", 0)\<close>: a field is \<open>None\<close> when its key is absent.
\<close>

record threshold_config =
  cfg_op :: "pystr option"
  cfg_threshold :: "real option"

text \<open>The dict comprehension \<open>{r["indicator"]: r for r in rules}\<close>: a later rule replaces
  an earlier one for the same indicator.\<close>

definition rule_by_ind :: "rule list \<Rightarrow> pystr \<rightharpoonup> rule" where
  "rule_by_ind rules = foldl (\<lambda>m r. m(indicator r \<mapsto> r)) Map.empty rules"

text \<open>One pass of the inner loop body: the value appended to \<open>row\<close> for \<open>ind\<close>.\<close>

definition cell ::
  "(pystr \<rightharpoonup> real) \<Rightarrow> rule list \<Rightarrow> (pystr \<rightharpoonup> threshold_config) option \<Rightarrow> pystr \<Rightarrow> error + real"
where
  "cell indicator_values rules indicator_thresholds ind =
     (case rule_by_ind rules ind of
        None \<Rightarrow> Inr 0
      | Some rule \<Rightarrow>
          (case indicator_values ind of
             None \<Rightarrow> Inr 0
           | Some val \<Rightarrow>
               (case (case indicator_thresholds of None \<Rightarrow> None | Some th \<Rightarrow> th ind) of
                  Some threshold_config \<Rightarrow>
                    (let op = (case cfg_op threshold_config of Some x \<Rightarrow> x | None \<Rightarrow> ascii ''>='');
                         threshold = (case cfg_threshold threshold_config of Some x \<Rightarrow> x | None \<Rightarrow> 0)
                     in case check_condition (Some val) op threshold of
                          Inl e \<Rightarrow> Inl e
                        | Inr ok \<Rightarrow> Inr (if ok then weight rule else 0))
                | None \<Rightarrow> Inr (weight rule))))"

fun build_row ::
  "(pystr \<rightharpoonup> real) \<Rightarrow> rule list \<Rightarrow> (pystr \<rightharpoonup> threshold_config) option \<Rightarrow> pystr list
     \<Rightarrow> error + real list"
where
  "build_row indicator_values rules indicator_thresholds [] = Inr []"
| "build_row indicator_values rules indicator_thresholds (ind # indicators) =
     (case cell indicator_values rules indicator_thresholds ind of
        Inl e \<Rightarrow> Inl e
      | Inr x \<Rightarrow>
          (case build_row indicator_values rules indicator_thresholds indicators of
             Inl e \<Rightarrow> Inl e
           | Inr row \<Rightarrow> Inr (x # row)))"

fun build_rows ::
  "(pystr \<rightharpoonup> real) \<Rightarrow> strategies_config \<Rightarrow> pystr list \<Rightarrow> (pystr \<rightharpoonup> threshold_config) option
     \<Rightarrow> error + real list list"
where
  "build_rows indicator_values [] indicators indicator_thresholds = Inr []"
| "build_rows indicator_values ((est, rules) # rest) indicators indicator_thresholds =
     (case build_row indicator_values rules indicator_thresholds indicators of
        Inl e \<Rightarrow> Inl e
      | Inr row \<Rightarrow>
          (case build_rows indicator_values rest indicators indicator_thresholds of
             Inl e \<Rightarrow> Inl e
           | Inr matrix \<Rightarrow> Inr (row # matrix)))"

definition build_indicator_matrix ::
  "(pystr \<rightharpoonup> real) \<Rightarrow> strategies_config \<Rightarrow> pystr list \<Rightarrow> (pystr \<rightharpoonup> threshold_config) option
     \<Rightarrow> error + (real list list \<times> pystr list)"
where
  "build_indicator_matrix indicator_values strategies_config indicators indicator_thresholds =
     (let strategy_names = map fst strategies_config in
      case build_rows indicator_values strategies_config indicators indicator_thresholds of
        Inl e \<Rightarrow> Inl e
      | Inr matrix \<Rightarrow> Inr (matrix, strategy_names))"

text \<open>
  The first statement of \<open>build_mcda_matrix\<close>, \<open>indicator_matrix.sum(axis=1)\<close>: the row
  sums. For a configuration without strategies the array has one dimension and numpy
  raises \<open>AxisError\<close>.
\<close>

definition compliance :: "real list list \<Rightarrow> error + real list" where
  "compliance indicator_matrix =
     (if indicator_matrix = [] then Inl AxisError else Inr (map sum_list indicator_matrix))"

section \<open>\<open>normalize_criterion\<close>\<close>


section \<open>The tables of the urgency multiplier\<close>

text \<open>
  The three module-level dictionaries, in the order of the source (a Python dict keeps
  insertion order, and the loops below depend on it). No key occurs twice in any of them.
  A code point outside ASCII is written as its number.
\<close>

definition ESTRATEGIA_TIPO_RESPUESTA :: "(pystr \<times> pystr) list" where
  "ESTRATEGIA_TIPO_RESPUESTA = [
    (ascii ''Aplicar adulticidas qu'' @ [237] @ ascii ''micos como malati'' @ [243]
       @ ascii ''n o deltametrina para el control r'' @ [225]
       @ ascii ''pido del vector adulto en espacios abiertos.'',
     ascii ''inmediata''),
    (ascii ''Implementar r'' @ [225]
       @ ascii ''pidamente protocolos de triage y fortalecer la capacitaci'' @ [243]
       @ ascii ''n del personal de salud para el manejo cl'' @ [237]
       @ ascii ''nico del dengue.'',
     ascii ''inmediata''),
    (ascii ''Aplicar larvicidas qu'' @ [237] @ ascii ''micos en criaderos espec'' @ [237]
       @ ascii ''ficos de gran volumen donde no es viable el control f'' @ [237]
       @ ascii ''sico, garantizando seguridad ambiental.'',
     ascii ''activa''),
    (ascii ''Aplicar m'' @ [233] @ ascii ''todos biol'' @ [243]
       @ ascii ''gicos para el control larvario del vector, incluyendo el uso de peces larv''
       @ [237] @ ascii ''voros y Bacillus thuringiensis.'',
     ascii ''activa''),
    (ascii ''Implementar acciones de control f'' @ [237]
       @ ascii ''sico en el entorno domiciliario y comunitario para reducir o eliminar criaderos del vector.'',
     ascii ''activa''),
    (ascii ''Realizar identificaci'' @ [243]
       @ ascii ''n focalizada de criaderos mediante inspecci'' @ [243]
       @ ascii ''n directa y herramientas de georreferenciaci'' @ [243] @ ascii ''n.'',
     ascii ''activa''),
    (ascii ''Fomentar el uso de medidas de protecci'' @ [243]
       @ ascii ''n individual, como repelente y barreras f'' @ [237]
       @ ascii ''sicas, especialmente en grupos de riesgo.'',
     ascii ''activa''),
    (ascii ''Promover pr'' @ [225] @ ascii ''cticas preventivas sostenibles mediante campa''
       @ [241]
       @ ascii ''as educativas, cambio de comportamiento social y vigilancia participativa.'',
     ascii ''preventiva''),
    (ascii ''Difundir mensajes preventivos inmediatos a trav'' @ [233]
       @ ascii ''s de canales como SMS, redes sociales y altavoces en zonas de brote.'',
     ascii ''preventiva''),
    (ascii ''Fortalecer la percepci'' @ [243]
       @ ascii ''n de riesgo del dengue y promover pr'' @ [225]
       @ ascii ''cticas preventivas comunitarias mediante informaci'' @ [243]
       @ ascii ''n, educaci'' @ [243] @ ascii ''n y comunicaci'' @ [243] @ ascii ''n.'',
     ascii ''preventiva''),
    (ascii ''Fortalecer la prevenci'' @ [243]
       @ ascii ''n individual frente al dengue mediante el uso de vacunas aprobadas en poblaci''
       @ [243] @ ascii ''n objetivo seg'' @ [250] @ ascii ''n lineamientos nacionales.'',
     ascii ''preventiva''),
    (ascii ''Articular esfuerzos con los sectores de agua, saneamiento, educaci'' @ [243]
       @ ascii ''n y servicios p'' @ [250]
       @ ascii ''blicos para acciones preventivas sostenibles.'',
     ascii ''coordinacion''),
    (ascii ''Fortalecer la articulaci'' @ [243]
       @ ascii ''n institucional para asegurar la continuidad de las acciones de control y facilitar la entrada a predios.'',
     ascii ''coordinacion''),
    (ascii ''Fortalecer la sostenibilidad del programa de control del dengue mediante inversi''
       @ [243] @ ascii ''n continua, alianzas y gesti'' @ [243] @ ascii ''n de recursos.'',
     ascii ''coordinacion''),
    (ascii ''Utilizar datos meteorol'' @ [243]
       @ ascii ''gicos y modelos de alerta temprana para anticipar condiciones favorables al vector.'',
     ascii ''monitoreo''),
    (ascii ''Utilizar tecnolog'' @ [237]
       @ ascii ''as innovadoras para el monitoreo y control focalizado del vector, como drones, sensores remotos o trampas inteligentes.'',
     ascii ''monitoreo''),
    (ascii ''Monitorear condiciones clim'' @ [225] @ ascii ''ticas y gestionar escorrent''
       @ [237] @ ascii ''as o acumulaciones de agua que favorezcan criaderos.'',
     ascii ''monitoreo''),
    (ascii ''Implementar estrategias de control vectorial basadas en biotecnolog'' @ [237]
       @ ascii ''a, como la liberaci'' @ [243] @ ascii ''n de mosquitos Wolbachia o t''
       @ [233] @ ascii ''cnica del insecto est'' @ [233] @ ascii ''ril.'',
     ascii ''monitoreo''),
    (ascii ''Implementar programas de diagn'' @ [243]
       @ ascii ''stico oportuno, tratamiento adecuado y acompa'' @ [241]
       @ ascii ''amiento a pacientes con dengue.'',
     ascii ''monitoreo'')]"

definition MULTIPLICADORES_URGENCIA :: "(pystr \<times> (pystr \<times> real) list) list" where
  "MULTIPLICADORES_URGENCIA = [
    (ascii ''bajo_riesgo'',
      [(ascii ''inmediata'', 0.2),
       (ascii ''activa'', 0.5),
       (ascii ''preventiva'', 1.8),
       (ascii ''coordinacion'', 1.5),
       (ascii ''monitoreo'', 1.7)]),
    (ascii ''riesgo_moderado'',
      [(ascii ''inmediata'', 0.4),
       (ascii ''activa'', 1.6),
       (ascii ''preventiva'', 0.9),
       (ascii ''coordinacion'', 1.2),
       (ascii ''monitoreo'', 1.3)]),
    (ascii ''alto_riesgo'',
      [(ascii ''inmediata'', 1.8),
       (ascii ''activa'', 1.3),
       (ascii ''preventiva'', 0.4),
       (ascii ''coordinacion'', 1.0),
       (ascii ''monitoreo'', 0.6)]),
    (ascii ''emergencia'',
      [(ascii ''inmediata'', 2.5),
       (ascii ''activa'', 0.9),
       (ascii ''preventiva'', 0.2),
       (ascii ''coordinacion'', 0.7),
       (ascii ''monitoreo'', 0.3)])]"

definition CONTEXTO_ESCENARIO :: "(pystr \<times> (pystr \<times> real) list) list" where
  "CONTEXTO_ESCENARIO = [
    (ascii ''lluvias_intensas'',
      [(ascii ''Monitorear condiciones clim'' @ [225] @ ascii ''ticas y gestionar escorrent'' @ [237] @ ascii ''as'', 1.8),
       (ascii ''Realizar identificaci'' @ [243] @ ascii ''n focalizada de criaderos'', 1.5),
       (ascii ''Implementar acciones de control f'' @ [237] @ ascii ''sico'', 1.4),
       (ascii ''Utilizar datos meteorol'' @ [243] @ ascii ''gicos'', 1.6),
       (ascii ''Aplicar larvicidas qu'' @ [237] @ ascii ''micos'', 1.3)]),
    (ascii ''intermitencia_agua'',
      [(ascii ''Implementar acciones de control f'' @ [237] @ ascii ''sico'', 1.7),
       (ascii ''Realizar identificaci'' @ [243] @ ascii ''n focalizada de criaderos'', 1.6),
       (ascii ''Promover pr'' @ [225] @ ascii ''cticas preventivas'', 1.4),
       (ascii ''Fortalecer la percepci'' @ [243] @ ascii ''n de riesgo'', 1.3),
       (ascii ''Aplicar larvicidas qu'' @ [237] @ ascii ''micos'', 1.5),
       (ascii ''Articular esfuerzos con los sectores de agua'', 1.6)]),
    (ascii ''movilidad_eventos'',
      [(ascii ''Implementar programas de diagn'' @ [243] @ ascii ''stico oportuno'', 1.7),
       (ascii ''Implementar r'' @ [225] @ ascii ''pidamente protocolos de triage'', 1.5),
       (ascii ''Difundir mensajes preventivos inmediatos'', 1.6),
       (ascii ''Fomentar el uso de medidas de protecci'' @ [243] @ ascii ''n individual'', 1.5),
       (ascii ''Utilizar tecnolog'' @ [237] @ ascii ''as innovadoras para el monitoreo'', 1.4)]),
    (ascii ''saturacion_operativa'',
      [(ascii ''Fortalecer la articulaci'' @ [243] @ ascii ''n institucional'', 1.7),
       (ascii ''Fortalecer la sostenibilidad del programa'', 1.5),
       (ascii ''Aplicar adulticidas qu'' @ [237] @ ascii ''micos'', 1.4),
       (ascii ''Implementar r'' @ [225] @ ascii ''pidamente protocolos de triage'', 1.6),
       (ascii ''Articular esfuerzos con los sectores'', 1.5)]),
    (ascii ''agua_intermitente'',
      [(ascii ''Implementar acciones de control f'' @ [237] @ ascii ''sico'', 6.0),
       (ascii ''Aplicar larvicidas qu'' @ [237] @ ascii ''micos'', 5.0),
       (ascii ''Articular esfuerzos con los sectores de agua'', 4.5),
       (ascii ''Promover pr'' @ [225] @ ascii ''cticas preventivas'', 4.0),
       (ascii ''m'' @ [233] @ ascii ''todos biol'' @ [243] @ ascii ''gicos'', 0.3),
       (ascii ''adulticidas'', 0.4)]),
    (ascii ''alta_densidad'',
      [(ascii ''Aplicar adulticidas qu'' @ [237] @ ascii ''micos'', 6.0),
       (ascii ''Fomentar el uso de medidas de protecci'' @ [243] @ ascii ''n individual'', 5.5),
       (ascii ''Implementar r'' @ [225] @ ascii ''pidamente protocolos de triage'', 5.0),
       (ascii ''Implementar programas de diagn'' @ [243] @ ascii ''stico oportuno'', 4.5),
       (ascii ''m'' @ [233] @ ascii ''todos biol'' @ [243] @ ascii ''gicos'', 0.2),
       (ascii ''control f'' @ [237] @ ascii ''sico'', 0.4)]),
    (ascii ''construcciones'',
      [(ascii ''Monitorear condiciones clim'' @ [225] @ ascii ''ticas y gestionar escorrent'' @ [237] @ ascii ''as'', 6.0),
       (ascii ''Utilizar tecnolog'' @ [237] @ ascii ''as innovadoras'', 5.5),
       (ascii ''Articular esfuerzos con los sectores'', 5.0),
       (ascii ''Realizar identificaci'' @ [243] @ ascii ''n focalizada de criaderos'', 4.5),
       (ascii ''m'' @ [233] @ ascii ''todos biol'' @ [243] @ ascii ''gicos'', 0.3),
       (ascii ''adulticidas'', 0.5)]),
    (ascii ''dificil_acceso'',
      [(ascii ''Utilizar tecnolog'' @ [237] @ ascii ''as innovadoras'', 6.0),
       (ascii ''Aplicar m'' @ [233] @ ascii ''todos biol'' @ [243] @ ascii ''gicos'', 5.5),
       (ascii ''Fortalecer la articulaci'' @ [243] @ ascii ''n institucional'', 5.0),
       (ascii ''Promover pr'' @ [225] @ ascii ''cticas preventivas'', 4.5),
       (ascii ''adulticidas'', 0.3),
       (ascii ''larvicidas qu'' @ [237] @ ascii ''micos'', 0.4)]),
    (ascii ''rechazo_comunitario'',
      [(ascii ''Fortalecer la percepci'' @ [243] @ ascii ''n de riesgo'', 6.0),
       (ascii ''Difundir mensajes preventivos'', 5.5),
       (ascii ''Promover pr'' @ [225] @ ascii ''cticas preventivas'', 5.0),
       (ascii ''Fortalecer la articulaci'' @ [243] @ ascii ''n institucional'', 4.5),
       (ascii ''m'' @ [233] @ ascii ''todos biol'' @ [243] @ ascii ''gicos'', 0.3),
       (ascii ''adulticidas'', 0.3),
       (ascii ''larvicidas'', 0.4)]),
    (ascii ''historicamente_problematica'',
      [(ascii ''Realizar identificaci'' @ [243] @ ascii ''n focalizada de criaderos'', 6.0),
       (ascii ''Utilizar tecnolog'' @ [237] @ ascii ''as innovadoras'', 5.5),
       (ascii ''Utilizar datos meteorol'' @ [243] @ ascii ''gicos'', 5.0),
       (ascii ''m'' @ [233] @ ascii ''todos biol'' @ [243] @ ascii ''gicos'', 0.4),
       (ascii ''adulticidas'', 0.3)]),
    (ascii ''bien_organizada'',
      [(ascii ''Promover pr'' @ [225] @ ascii ''cticas preventivas'', 6.0),
       (ascii ''Fortalecer la percepci'' @ [243] @ ascii ''n de riesgo'', 5.5),
       (ascii ''Difundir mensajes preventivos'', 5.0),
       (ascii ''m'' @ [233] @ ascii ''todos biol'' @ [243] @ ascii ''gicos'', 0.4),
       (ascii ''adulticidas'', 0.2),
       (ascii ''larvicidas'', 0.3)]),
    (ascii ''buena_infraestructura'',
      [(ascii ''Utilizar tecnolog'' @ [237] @ ascii ''as innovadoras'', 6.0),
       (ascii ''Utilizar datos meteorol'' @ [243] @ ascii ''gicos'', 5.5),
       (ascii ''Monitorear condiciones clim'' @ [225] @ ascii ''ticas'', 5.0),
       (ascii ''m'' @ [233] @ ascii ''todos biol'' @ [243] @ ascii ''gicos'', 0.4),
       (ascii ''adulticidas'', 0.2),
       (ascii ''larvicidas'', 0.3)]),
    (ascii ''cobertura_agua_variable'',
      [(ascii ''Promover pr'' @ [225] @ ascii ''cticas preventivas'', 6.0),
       (ascii ''Implementar acciones de control f'' @ [237] @ ascii ''sico'', 5.5),
       (ascii ''Articular esfuerzos con los sectores de agua'', 5.0),
       (ascii ''m'' @ [233] @ ascii ''todos biol'' @ [243] @ ascii ''gicos'', 0.4),
       (ascii ''adulticidas'', 0.2)]),
    (ascii ''transicion'',
      [(ascii ''Fortalecer la sostenibilidad del programa'', 6.0),
       (ascii ''Promover pr'' @ [225] @ ascii ''cticas preventivas'', 5.5),
       (ascii ''Realizar identificaci'' @ [243] @ ascii ''n focalizada de criaderos'', 5.0),
       (ascii ''m'' @ [233] @ ascii ''todos biol'' @ [243] @ ascii ''gicos'', 0.4),
       (ascii ''adulticidas'', 0.2),
       (ascii ''larvicidas'', 0.3)])]"

section \<open>\<open>get_tipo_respuesta\<close> and \<open>aplicar_multiplicador_urgencia\<close>\<close>

text \<open>
  \<open>str.lower\<close> depends on the case tables of Unicode, which belong to the Python runtime:
  it is the parameter \<open>lower\<close>. \<open>ascii_lower\<close> is what it does on ASCII text.
\<close>

definition ascii_lower :: "pystr \<Rightarrow> pystr" where
  "ascii_lower s = map (\<lambda>c. if 65 \<le> c \<and> c \<le> 90 then c + 32 else c) s"

text \<open>\<open>a in b\<close> for two strings: \<open>a\<close> occurs in \<open>b\<close> as a contiguous piece.\<close>

fun str_in :: "pystr \<Rightarrow> pystr \<Rightarrow> bool" where
  "str_in a [] = (a = [])"
| "str_in a (c # cs) = (prefix a (c # cs) \<or> str_in a cs)"

definition get_tipo_respuesta :: "(pystr \<Rightarrow> pystr) \<Rightarrow> pystr \<Rightarrow> pystr" where
  "get_tipo_respuesta lower estrategia =
     (case map_of ESTRATEGIA_TIPO_RESPUESTA estrategia of
        Some tipo \<Rightarrow> tipo
      | None \<Rightarrow>
          let est_norm = lower (take 50 (strip estrategia)) in
          (case find (\<lambda>(est_key, tipo). lower (take 50 (strip est_key)) = est_norm)
                  ESTRATEGIA_TIPO_RESPUESTA of
             Some (est_key, tipo) \<Rightarrow> tipo
           | None \<Rightarrow> ascii ''activa''))"

text \<open>The block that picks \<open>mult_contexto\<close>: \<open>None\<close> and the empty string are falsy.\<close>

definition mult_contexto :: "pystr option \<Rightarrow> (pystr \<times> real) list" where
  "mult_contexto contexto_escenario =
     (case contexto_escenario of
        None \<Rightarrow> []
      | Some c \<Rightarrow>
          if c \<noteq> [] then
            (case map_of CONTEXTO_ESCENARIO c of Some m \<Rightarrow> m | None \<Rightarrow> [])
          else [])"

text \<open>The inner loop over \<open>mult_contexto.items()\<close>, which stops at the first keyword found.\<close>

fun mult_ctx :: "(pystr \<Rightarrow> pystr) \<Rightarrow> (pystr \<times> real) list \<Rightarrow> pystr \<Rightarrow> real" where
  "mult_ctx lower [] est_name = 1"
| "mult_ctx lower ((ctx_key, ctx_mult) # rest) est_name =
     (if str_in (lower ctx_key) (lower est_name) then ctx_mult
      else mult_ctx lower rest est_name)"

text \<open>
  The main loop, with the dictionary of context multipliers as the argument \<open>contexto\<close>:
  \<open>scores_ajustados\<close> starts as zeros of the length of \<open>scores\<close>, and
  the loop over \<open>zip(scores, strategy_names)\<close> fills its first entries, so entries beyond
  the shorter of the two lists stay 0.
\<close>

definition ajustar ::
  "(pystr \<Rightarrow> pystr) \<Rightarrow> (pystr \<times> real) list \<Rightarrow> (pystr \<times> real) list \<Rightarrow> real list \<Rightarrow> pystr list
     \<Rightarrow> real list"
where
  "ajustar lower multiplicadores contexto scores strategy_names =
     (let filled =
            map (\<lambda>(score, est_name).
                   let tipo = get_tipo_respuesta lower est_name;
                       mult_nivel = (case map_of multiplicadores tipo of
                                       Some x \<Rightarrow> x | None \<Rightarrow> 1)
                   in score * mult_nivel * mult_ctx lower contexto est_name)
                (zip scores strategy_names)
      in filled @ replicate (length scores - length filled) 0)"

definition aplicar_multiplicador_urgencia ::
  "(pystr \<Rightarrow> pystr) \<Rightarrow> real list \<Rightarrow> pystr list \<Rightarrow> pystr \<Rightarrow> pystr option \<Rightarrow> real list"
where
  "aplicar_multiplicador_urgencia lower scores strategy_names nivel_riesgo contexto_escenario =
     (case map_of MULTIPLICADORES_URGENCIA nivel_riesgo of
        None \<Rightarrow> scores
      | Some multiplicadores \<Rightarrow>
          let adj = ajustar lower multiplicadores (mult_contexto contexto_escenario)
                      scores strategy_names
          in if length adj > 0 then
               (let max_score = Max (set adj) in
                if max_score > 0 then map (\<lambda>x. x / max_score) adj else adj)
             else adj)"

section \<open>The final ranks\<close>

text \<open>
  The re-ranking of \<open>ejecutar_escenario\<close>:
  \<^verbatim>\<open>indices_ordenados = np.argsort(scores_ajustados)[::-1]\<close>, then
  \<^verbatim>\<open>ranks_ajustados[idx] = rank\<close> for \<open>rank, idx\<close> in
  \<^verbatim>\<open>enumerate(indices_ordenados, 1)\<close>.
  \<open>np.argsort\<close> is numpy's: it returns the indices in an order that sorts the values
  ascending, and with its default algorithm promises nothing about the order of equal
  values. It is the parameter \<open>argsort\<close>; \<open>argsort_ok\<close> is its contract, and
  \<open>stable_argsort\<close> is the instance that keeps equal values in index order.
\<close>

definition argsort_ok :: "(real list \<Rightarrow> nat list) \<Rightarrow> bool" where
  "argsort_ok argsort \<longleftrightarrow>
     (\<forall>xs. mset (argsort xs) = mset [0..<length xs] \<and>
           sorted (map (\<lambda>i. xs ! i) (argsort xs)))"

definition stable_argsort :: "real list \<Rightarrow> nat list" where
  "stable_argsort xs = sort_key (\<lambda>i. xs ! i) [0..<length xs]"

definition ranks_ajustados :: "(real list \<Rightarrow> nat list) \<Rightarrow> real list \<Rightarrow> nat list" where
  "ranks_ajustados argsort scores_ajustados =
     (let indices_ordenados = rev (argsort scores_ajustados) in
      fold (\<lambda>(rank, idx) ranks. ranks[idx := rank])
           (zip [1..<Suc (length indices_ordenados)] indices_ordenados)
           (replicate (length scores_ajustados) 0))"

text \<open>
  The tie rule in the words of the specification, for comparison with the code: the rank
  of a strategy is one more than the number of strategies with a greater score or with
  the same score and an earlier position in the input.
\<close>

definition rank_stable_by_input_order :: "real list \<Rightarrow> nat list" where
  "rank_stable_by_input_order xs =
     map (\<lambda>i. Suc (length (filter (\<lambda>j. xs ! i < xs ! j \<or> (xs ! j = xs ! i \<and> j < i))
                                 [0..<length xs])))
         [0..<length xs]"

section \<open>Properties of \<open>check_condition\<close>\<close>

text \<open>
  C5: for a value that is not \<open>None\<close>, \<open>check_condition\<close> returns whether the value
  is in the operator's region: strictly below for \<open><\<close>, at or below for \<open><=\<close>, strictly
  above for \<open>>\<close>, at or above for \<open>>=\<close>. At the boundary, \<open>>=\<close> gives \<open>True\<close> and
  \<open>>\<close> gives \<open>False\<close>. It raises \<open>ValueError\<close> exactly when the operator is none of the
  four. For the value \<open>None\<close> it returns \<open>False\<close> whatever the operator string is, and
  does not raise.
\<close>

theorem check_condition_regions:
  "check_condition (Some v) (ascii ''<'') t = Inr (v < t) \<and>
   check_condition (Some v) (ascii ''<='') t = Inr (v \<le> t) \<and>
   check_condition (Some v) (ascii ''>'') t = Inr (v > t) \<and>
   check_condition (Some v) (ascii ''>='') t = Inr (v \<ge> t) \<and>
   check_condition (Some t) (ascii ''>='') t = Inr True \<and>
   check_condition (Some t) (ascii ''>'') t = Inr False \<and>
   ((\<exists>e. check_condition (Some v) op t = Inl e) \<longleftrightarrow>
      op \<notin> {ascii ''<'', ascii ''<='', ascii ''>'', ascii ''>=''}) \<and>
   (check_condition (Some v) op t = Inl (ValueError (ascii ''Operador no soportado: '' @ op)) \<longleftrightarrow>
      op \<notin> {ascii ''<'', ascii ''<='', ascii ''>'', ascii ''>=''}) \<and>
   check_condition None op t = Inr False"
  by (simp add: check_condition_def ascii_def)

section \<open>Properties of \<open>parse_threshold\<close>\<close>

lemmas parse_defs =
  parse_threshold_def normalized_def ascii_def strip_def isspace_def replace_def
  patterns_def pattern1_def pattern2_def pattern3_def number_def
  extractor1_def extractor2_def extractor3_def
  normalize_op_def match_group_def py_float_def digits_value_def digit_def isdecimal_def Let_def

lemma ascii_digitsD: "ascii_digits D \<Longrightarrow> c < 128 \<Longrightarrow> D c = ascii_decimal c"
  by (simp add: ascii_digits_def)






lemma parse_threshold_priority:
  "parse_threshold D (Some u) =
     (if u = [] then None
      else case re_search D pattern1 (normalized u) of
        Some m \<Rightarrow> Some (normalize_op (match_group m 1 @ ascii ''=''), py_float D (match_group m 2))
      | None \<Rightarrow>
       (case re_search D pattern2 (normalized u) of
        Some m \<Rightarrow> Some (normalize_op (match_group m 1), py_float D (match_group m 2))
      | None \<Rightarrow>
       (case re_search D pattern3 (normalized u) of
        Some m \<Rightarrow>
          Some (normalize_op (match_group m 1 @ (if 61 \<in> set (match_group m 1) then ascii ''='' else [])),
                py_float D (match_group m 2))
      | None \<Rightarrow>
       (case re_search D (number 1) (normalized u) of
        Some m \<Rightarrow> Some (ascii ''>='', py_float D (match_group m 1))
      | None \<Rightarrow> None))))"
  by (simp add: parse_threshold_def patterns_def extractor1_def extractor2_def extractor3_def
      split: option.splits)




section \<open>Properties of \<open>normalize_strategy_weights\<close>\<close>

lemma sum_list_weight_div:
  "sum_list (map weight (map (\<lambda>r. r\<lparr>weight := weight r / t\<rparr>) rules)) = sum_list (map weight rules) / t"
  by (induction rules) (simp_all add: add_divide_distrib)

lemma map_indicator_div:
  "map indicator (map (\<lambda>r. r\<lparr>weight := weight r / t\<rparr>) rules) = map indicator rules"
  by (induction rules) simp_all

lemma sum_list_nonneg_pos:
  "(\<forall>r\<in>set rules. 0 \<le> weight r) \<Longrightarrow> (\<exists>r\<in>set rules. weight r \<noteq> 0) \<Longrightarrow> 0 < sum_list (map weight rules)"
proof (induction rules)
  case Nil
  then show ?case by simp
next
  case (Cons r rules)
  have nn: "0 \<le> sum_list (map weight rules)"
    using Cons.prems(1) by (auto intro!: sum_list_nonneg)
  show ?case
  proof (cases "weight r = 0")
    case True
    with Cons show ?thesis by auto
  next
    case False
    with Cons.prems(1) have "0 < weight r" by (simp add: less_le)
    with nn show ?thesis by simp
  qed
qed

text \<open>
  C7: after \<open>normalize_strategy_weights\<close>, every strategy keeps its place, its name and
  the indicators of its rules. If the total of its weights is not zero, the new weights sum
  to 1 (exactly, in real arithmetic); that is so in particular when no weight is negative
  and some weight is not zero. If the total is exactly zero, its rule list is unchanged.
\<close>

theorem normalize_strategy_weights_sum:
  assumes "i < length cfg" and "cfg ! i = (est, rules)"
  shows "\<exists>rules'. normalize_strategy_weights cfg ! i = (est, rules') \<and>
     length (normalize_strategy_weights cfg) = length cfg \<and>
     (sum_list (map weight rules) \<noteq> 0 \<longrightarrow>
        sum_list (map weight rules') = 1 \<and> map indicator rules' = map indicator rules) \<and>
     ((\<forall>r\<in>set rules. 0 \<le> weight r) \<and> (\<exists>r\<in>set rules. weight r \<noteq> 0) \<longrightarrow>
        sum_list (map weight rules') = 1) \<and>
     (sum_list (map weight rules) = 0 \<longrightarrow> rules' = rules)"
proof (cases "sum_list (map weight rules) = 0")
  case True
  with assms have "normalize_strategy_weights cfg ! i = (est, rules)"
    by (simp add: normalize_strategy_weights_def)
  moreover have "\<not> ((\<forall>r\<in>set rules. 0 \<le> weight r) \<and> (\<exists>r\<in>set rules. weight r \<noteq> 0))"
    using sum_list_nonneg_pos [of rules] True by auto
  ultimately show ?thesis using True
    by (simp add: normalize_strategy_weights_def)
next
  case False
  let ?t = "sum_list (map weight rules)"
  let ?rs = "map (\<lambda>r. r\<lparr>weight := weight r / ?t\<rparr>) rules"
  from assms False have "normalize_strategy_weights cfg ! i = (est, ?rs)"
    by (simp add: normalize_strategy_weights_def Let_def)
  moreover have "sum_list (map weight ?rs) = 1"
    using False by (simp only: sum_list_weight_div) simp
  moreover have "map indicator ?rs = map indicator rules"
    by (rule map_indicator_div)
  ultimately show ?thesis using False
    by (simp add: normalize_strategy_weights_def)
qed

theorem normalize_strategy_weights_sum_witness:
  "\<exists>rules'.
     normalize_strategy_weights
       [(ascii ''A'', [\<lparr>indicator = ascii ''x'', weight = 2\<rparr>, \<lparr>indicator = ascii ''y'', weight = 6\<rparr>]),
        (ascii ''B'', [\<lparr>indicator = ascii ''x'', weight = 0\<rparr>])] ! 0 = (ascii ''A'', rules') \<and>
     sum_list (map weight rules') = 1"
  using normalize_strategy_weights_sum [of 0
      "[(ascii ''A'', [\<lparr>indicator = ascii ''x'', weight = 2\<rparr>, \<lparr>indicator = ascii ''y'', weight = 6\<rparr>]),
        (ascii ''B'', [\<lparr>indicator = ascii ''x'', weight = 0\<rparr>])]"
      "ascii ''A''" "[\<lparr>indicator = ascii ''x'', weight = 2\<rparr>, \<lparr>indicator = ascii ''y'', weight = 6\<rparr>]"]
  by auto

section \<open>Properties of \<open>normalize_criterion\<close>\<close>






section \<open>Properties of \<open>build_indicator_matrix\<close>\<close>

lemma foldl_rule_upd:
  "foldl (\<lambda>m r. m(indicator r \<mapsto> r)) m0 rules =
     m0 ++ map_of (rev (map (\<lambda>r. (indicator r, r)) rules))"
proof (induction rules arbitrary: m0)
  case Nil
  then show ?case by simp
next
  case (Cons r rules)
  have "foldl (\<lambda>m r. m(indicator r \<mapsto> r)) m0 (r # rules) =
        foldl (\<lambda>m r. m(indicator r \<mapsto> r)) (m0(indicator r \<mapsto> r)) rules"
    by (simp only: foldl_Cons)
  also have "\<dots> = m0(indicator r \<mapsto> r) ++ map_of (rev (map (\<lambda>r. (indicator r, r)) rules))"
    by (rule Cons.IH)
  also have "\<dots> = m0 ++ map_of (rev (map (\<lambda>r. (indicator r, r)) (r # rules)))"
    by (rule ext) (simp add: map_add_def split: option.splits)
  finally show ?case .
qed

lemma rule_by_ind_map_of:
  "rule_by_ind rules = map_of (rev (map (\<lambda>r. (indicator r, r)) rules))"
  by (simp add: rule_by_ind_def foldl_rule_upd)

lemma rule_by_ind_None: "rule_by_ind rules ind = None \<longleftrightarrow> ind \<notin> indicator ` set rules"
  by (simp add: rule_by_ind_map_of map_of_eq_None_iff image_image)

lemma rule_by_ind_Some:
  assumes "rule_by_ind rules ind = Some r"
  shows "r \<in> set rules \<and> indicator r = ind"
  using map_of_SomeD [OF assms [unfolded rule_by_ind_map_of]] by auto

lemma build_row_Inr:
  "build_row iv rules th inds = Inr row \<Longrightarrow>
   length row = length inds \<and> (\<forall>j<length inds. cell iv rules th (inds ! j) = Inr (row ! j))"
proof (induction inds arbitrary: row)
  case Nil
  then show ?case by simp
next
  case (Cons ind inds)
  from Cons.prems obtain x row' where x: "cell iv rules th ind = Inr x"
    and r: "build_row iv rules th inds = Inr row'" and row: "row = x # row'"
    by (auto split: sum.splits)
  from Cons.IH [OF r] x row show ?case
    by (auto simp: nth_Cons split: nat.splits)
qed

lemma build_rows_Inr:
  "build_rows iv cfg inds th = Inr M \<Longrightarrow>
   length M = length cfg \<and> (\<forall>i<length cfg. build_row iv (snd (cfg ! i)) th inds = Inr (M ! i))"
proof (induction cfg arbitrary: M)
  case Nil
  then show ?case by simp
next
  case (Cons p cfg)
  obtain est rules where p: "p = (est, rules)" by (cases p)
  from Cons.prems p obtain row M' where x: "build_row iv rules th inds = Inr row"
    and r: "build_rows iv cfg inds th = Inr M'" and M: "M = row # M'"
    by (auto split: sum.splits)
  from Cons.IH [OF r] x M p show ?case
    by (auto simp: nth_Cons split: nat.splits)
qed

lemma check_condition_valid:
  "op \<in> valid_ops \<Longrightarrow> \<exists>b. check_condition v op t = Inr b"
  by (auto simp: check_condition_def valid_ops_def split: option.splits)

lemma cell_total:
  assumes "\<forall>T ind tc. th = Some T \<and> T ind = Some tc \<longrightarrow>
             (case cfg_op tc of Some x \<Rightarrow> x | None \<Rightarrow> ascii ''>='') \<in> valid_ops"
  shows "\<exists>x. cell iv rules th ind = Inr x"
proof (cases "case th of None \<Rightarrow> None | Some T \<Rightarrow> T ind")
  case None
  then show ?thesis by (simp add: cell_def split: option.splits)
next
  case (Some tc)
  then obtain T where "th = Some T" "T ind = Some tc" by (auto split: option.splits)
  with assms have "(case cfg_op tc of Some x \<Rightarrow> x | None \<Rightarrow> ascii ''>='') \<in> valid_ops" by blast
  from check_condition_valid [OF this]
  have cc: "\<And>v t e. check_condition v (case cfg_op tc of Some x \<Rightarrow> x | None \<Rightarrow> ascii ''>='') t \<noteq> Inl e"
    by (metis sum.distinct(1))
  show ?thesis
    using Some cc by (auto simp: cell_def Let_def split: option.splits sum.splits)
qed

lemma build_row_total:
  assumes "\<forall>T ind tc. th = Some T \<and> T ind = Some tc \<longrightarrow>
             (case cfg_op tc of Some x \<Rightarrow> x | None \<Rightarrow> ascii ''>='') \<in> valid_ops"
  shows "\<exists>row. build_row iv rules th inds = Inr row"
proof (induction inds)
  case Nil
  then show ?case by simp
next
  case (Cons ind inds)
  from cell_total [OF assms] obtain x where "cell iv rules th ind = Inr x" by blast
  with Cons show ?case by auto
qed

lemma build_rows_total:
  assumes "\<forall>T ind tc. th = Some T \<and> T ind = Some tc \<longrightarrow>
             (case cfg_op tc of Some x \<Rightarrow> x | None \<Rightarrow> ascii ''>='') \<in> valid_ops"
  shows "\<exists>M. build_rows iv cfg inds th = Inr M"
proof (induction cfg)
  case Nil
  then show ?case by simp
next
  case (Cons p cfg)
  obtain est rules where p: "p = (est, rules)" by (cases p)
  from build_row_total [OF assms] obtain row where "build_row iv rules th inds = Inr row" by blast
  with Cons p show ?case by auto
qed

lemma cell_unlinked:
  "ind \<notin> indicator ` set rules \<or> iv ind = None \<Longrightarrow> cell iv rules th ind = Inr x \<Longrightarrow> x = 0"
  by (auto simp: cell_def rule_by_ind_None [symmetric] split: option.splits)

lemma cell_linked:
  assumes "rule_by_ind rules ind = Some r" and "iv ind = Some v"
    and "cell iv rules th ind = Inr x"
  shows "case (case th of None \<Rightarrow> None | Some T \<Rightarrow> T ind) of
           None \<Rightarrow> x = weight r
         | Some tc \<Rightarrow>
             x = (if check_condition (Some v)
                       (case cfg_op tc of Some x \<Rightarrow> x | None \<Rightarrow> ascii ''>='')
                       (case cfg_threshold tc of Some x \<Rightarrow> x | None \<Rightarrow> 0) = Inr True
                  then weight r else 0)"
  using assms
  by (auto simp: cell_def Let_def split: option.splits sum.splits)

lemma sum_list_zeros: "(\<forall>j<length (row :: real list). row ! j = 0) \<Longrightarrow> sum_list row = 0"
  by (induction row) (auto simp: nth_Cons split: nat.splits, force)


text \<open>
  C2: when every operator of the threshold table is one of the four that
  \<open>check_condition\<close> knows, \<open>build_indicator_matrix\<close> returns a matrix with one row per
  strategy and one column per indicator, and the strategy names in order. A cell is 0 when
  the strategy has no rule for the indicator or the indicator has no reading. When the
  indicator has a reading and an entry in the threshold table, the cell is the weight of the
  strategy's rule for the indicator if \<open>check_condition\<close> returns \<open>True\<close>, and 0 otherwise.
  When the indicator has a reading and no entry in the table (or there is no table), the
  cell is that weight. The rule is the one the dictionary \<open>rule_by_ind\<close> holds for the
  indicator, a rule of the strategy with that indicator. The compliance vector is the list of
  the row sums, and the row sum of a strategy without rules is 0.
\<close>

theorem build_indicator_matrix_cells:
  assumes "\<forall>T ind tc. th = Some T \<and> T ind = Some tc \<longrightarrow>
             (case cfg_op tc of Some x \<Rightarrow> x | None \<Rightarrow> ascii ''>='') \<in> valid_ops"
  shows "\<exists>M. build_indicator_matrix iv cfg inds th = Inr (M, map fst cfg) \<and>
     length M = length cfg \<and>
     (cfg \<noteq> [] \<longrightarrow> compliance M = Inr (map sum_list M)) \<and>
     (\<forall>i<length cfg.
        length (M ! i) = length inds \<and>
        (snd (cfg ! i) = [] \<longrightarrow> sum_list (M ! i) = 0) \<and>
        (\<forall>j<length inds.
           (inds ! j \<notin> indicator ` set (snd (cfg ! i)) \<or> iv (inds ! j) = None \<longrightarrow>
              M ! i ! j = 0) \<and>
           (\<forall>r v. rule_by_ind (snd (cfg ! i)) (inds ! j) = Some r \<and> iv (inds ! j) = Some v \<longrightarrow>
              r \<in> set (snd (cfg ! i)) \<and> indicator r = inds ! j \<and>
              (case (case th of None \<Rightarrow> None | Some T \<Rightarrow> T (inds ! j)) of
                 None \<Rightarrow> M ! i ! j = weight r
               | Some tc \<Rightarrow>
                   M ! i ! j =
                     (if check_condition (Some v)
                           (case cfg_op tc of Some x \<Rightarrow> x | None \<Rightarrow> ascii ''>='')
                           (case cfg_threshold tc of Some x \<Rightarrow> x | None \<Rightarrow> 0) = Inr True
                      then weight r else 0)))))"
proof -
  from build_rows_total [OF assms] obtain M where M: "build_rows iv cfg inds th = Inr M"
    by blast
  have res: "build_indicator_matrix iv cfg inds th = Inr (M, map fst cfg)"
    using M by (simp add: build_indicator_matrix_def)
  have len: "length M = length cfg"
    and rows: "\<And>i. i < length cfg \<Longrightarrow> build_row iv (snd (cfg ! i)) th inds = Inr (M ! i)"
    using build_rows_Inr [OF M] by simp_all
  have comp: "cfg \<noteq> [] \<longrightarrow> compliance M = Inr (map sum_list M)"
    using len by (auto simp: compliance_def)
  have body: "length (M ! i) = length inds \<and>
        (snd (cfg ! i) = [] \<longrightarrow> sum_list (M ! i) = 0) \<and>
        (\<forall>j<length inds.
           (inds ! j \<notin> indicator ` set (snd (cfg ! i)) \<or> iv (inds ! j) = None \<longrightarrow>
              M ! i ! j = 0) \<and>
           (\<forall>r v. rule_by_ind (snd (cfg ! i)) (inds ! j) = Some r \<and> iv (inds ! j) = Some v \<longrightarrow>
              r \<in> set (snd (cfg ! i)) \<and> indicator r = inds ! j \<and>
              (case (case th of None \<Rightarrow> None | Some T \<Rightarrow> T (inds ! j)) of
                 None \<Rightarrow> M ! i ! j = weight r
               | Some tc \<Rightarrow>
                   M ! i ! j =
                     (if check_condition (Some v)
                           (case cfg_op tc of Some x \<Rightarrow> x | None \<Rightarrow> ascii ''>='')
                           (case cfg_threshold tc of Some x \<Rightarrow> x | None \<Rightarrow> 0) = Inr True
                      then weight r else 0))))"
    if i: "i < length cfg" for i
  proof -
    let ?rules = "snd (cfg ! i)"
    have l: "length (M ! i) = length inds"
      and cells: "\<And>j. j < length inds \<Longrightarrow> cell iv ?rules th (inds ! j) = Inr (M ! i ! j)"
      using build_row_Inr [OF rows [OF i]] by simp_all
    have z: "?rules = [] \<longrightarrow> sum_list (M ! i) = 0"
    proof
      assume e: "?rules = []"
      have "\<forall>j<length (M ! i). M ! i ! j = 0"
      proof (intro allI impI)
        fix j assume "j < length (M ! i)"
        then have "j < length inds" using l by simp
        from cell_unlinked [OF _ cells [OF this]] e show "M ! i ! j = 0" by simp
      qed
      then show "sum_list (M ! i) = 0" by (rule sum_list_zeros)
    qed
    have c: "(inds ! j \<notin> indicator ` set ?rules \<or> iv (inds ! j) = None \<longrightarrow> M ! i ! j = 0) \<and>
           (\<forall>r v. rule_by_ind ?rules (inds ! j) = Some r \<and> iv (inds ! j) = Some v \<longrightarrow>
              r \<in> set ?rules \<and> indicator r = inds ! j \<and>
              (case (case th of None \<Rightarrow> None | Some T \<Rightarrow> T (inds ! j)) of
                 None \<Rightarrow> M ! i ! j = weight r
               | Some tc \<Rightarrow>
                   M ! i ! j =
                     (if check_condition (Some v)
                           (case cfg_op tc of Some x \<Rightarrow> x | None \<Rightarrow> ascii ''>='')
                           (case cfg_threshold tc of Some x \<Rightarrow> x | None \<Rightarrow> 0) = Inr True
                      then weight r else 0)))"
      if j: "j < length inds" for j
      using cell_unlinked [OF _ cells [OF j]] cell_linked [OF _ _ cells [OF j]]
        rule_by_ind_Some [of ?rules "inds ! j"]
      by blast
    from l z c show ?thesis by blast
  qed
  from res len comp body show ?thesis by blast
qed

theorem build_indicator_matrix_cells_witness:
  "build_indicator_matrix
     [ascii ''x'' \<mapsto> 5, ascii ''y'' \<mapsto> 1]
     [(ascii ''A'', [\<lparr>indicator = ascii ''x'', weight = 1 / 4\<rparr>,
                     \<lparr>indicator = ascii ''y'', weight = 1 / 4\<rparr>,
                     \<lparr>indicator = ascii ''z'', weight = 1 / 2\<rparr>]),
      (ascii ''B'', [])]
     [ascii ''x'', ascii ''y'', ascii ''z'']
     (Some [ascii ''x'' \<mapsto> \<lparr>cfg_op = Some (ascii ''>''), cfg_threshold = Some 3\<rparr>])
   = Inr ([[1 / 4, 1 / 4, 0], [0, 0, 0]], [ascii ''A'', ascii ''B''])"
proof -
  let ?th = "Some [ascii ''x'' \<mapsto> \<lparr>cfg_op = Some (ascii ''>''), cfg_threshold = Some 3\<rparr>]"
  have v: "\<forall>T ind tc. ?th = Some T \<and> T ind = Some tc \<longrightarrow>
             (case cfg_op tc of Some x \<Rightarrow> x | None \<Rightarrow> ascii ''>='') \<in> valid_ops"
    by (auto simp: valid_ops_def split: if_splits)
  from build_indicator_matrix_cells [OF v] show ?thesis
    by (simp add: build_indicator_matrix_def cell_def rule_by_ind_def check_condition_def ascii_def)
qed

subsection \<open>The bare number\<close>

lemma first_some_None_iff: "first_some f ks = None \<longleftrightarrow> (\<forall>k\<in>set ks. f k = None)"
  by (induction ks) (auto split: option.splits)

lemma first_some_rev_upt:
  "a \<le> n \<Longrightarrow> first_some f (rev [a..<Suc n]) =
     (case f n of Some r \<Rightarrow> Some r | None \<Rightarrow> first_some f (rev [a..<n]))"
  by simp

lemma in_cls_Digit: "in_cls D Digit = isdecimal D"
  by (rule ext) simp

lemma take_length_takeWhile: "take (length (takeWhile P s)) s = takeWhile P s"
  by (induction s) auto

lemma drop_length_takeWhile: "drop (length (takeWhile P s)) s = dropWhile P s"
  by (induction s) auto

lemma match_digit_star:
  "match_here D [(g, Digit, Star)] t = Some [(g, takeWhile (isdecimal D) t)]"
  by (simp add: in_cls_Digit first_some_rev_upt take_length_takeWhile del: upt_Suc)

lemma match_dot_digits:
  "match_here D [(g, Lit 46, Opt), (g, Digit, Star)] t =
     (case t of
        [] \<Rightarrow> Some [(g, []), (g, [])]
      | d # r \<Rightarrow>
          if d = 46 then Some [(g, [46]), (g, takeWhile (isdecimal D) r)]
          else Some [(g, []), (g, takeWhile (isdecimal D) t)])"
proof -
  have "match_here D [(g, Lit 46, Opt), (g, Digit, Star)] t =
     first_some
       (\<lambda>k. map_option (\<lambda>r. (g, take k t) # r) (match_here D [(g, Digit, Star)] (drop k t)))
       (counts Opt (length (takeWhile (in_cls D (Lit 46)) t)))"
    by (simp only: match_here.simps)
  then show ?thesis
    by (cases t) (simp_all add: match_digit_star del: match_here.simps)
qed

lemma match_number_digit:
  assumes "isdecimal D c"
  shows "match_here D (number g) (c # cs) =
     Some [(g, takeWhile (isdecimal D) (c # cs)),
           (g, case dropWhile (isdecimal D) (c # cs) of [] \<Rightarrow> [] | d # r \<Rightarrow> if d = 46 then [46] else []),
           (g, case dropWhile (isdecimal D) (c # cs) of
                 [] \<Rightarrow> []
               | d # r \<Rightarrow> if d = 46 then takeWhile (isdecimal D) r
                          else [])]"
proof -
  let ?s = "c # cs"
  let ?n = "length (takeWhile (isdecimal D) ?s)"
  have n: "1 \<le> ?n" using assms by simp
  have "match_here D (number g) ?s =
     first_some
       (\<lambda>k. map_option (\<lambda>r. (g, take k ?s) # r)
              (match_here D [(g, Lit 46, Opt), (g, Digit, Star)] (drop k ?s)))
       (rev [1..<Suc ?n])"
    by (simp only: number_def match_here.simps counts.simps in_cls_Digit)
  also have "\<dots> =
     (case map_option (\<lambda>r. (g, take ?n ?s) # r)
              (match_here D [(g, Lit 46, Opt), (g, Digit, Star)] (drop ?n ?s)) of
        Some r \<Rightarrow> Some r
      | None \<Rightarrow> first_some
       (\<lambda>k. map_option (\<lambda>r. (g, take k ?s) # r)
              (match_here D [(g, Lit 46, Opt), (g, Digit, Star)] (drop k ?s))) (rev [1..<?n]))"
    by (rule first_some_rev_upt [OF n])
  finally have m: "match_here D (number g) ?s =
     (case map_option (\<lambda>r. (g, takeWhile (isdecimal D) ?s) # r)
              (match_here D [(g, Lit 46, Opt), (g, Digit, Star)] (dropWhile (isdecimal D) ?s)) of
        Some r \<Rightarrow> Some r
      | None \<Rightarrow> first_some
       (\<lambda>k. map_option (\<lambda>r. (g, take k ?s) # r)
              (match_here D [(g, Lit 46, Opt), (g, Digit, Star)] (drop k ?s))) (rev [1..<?n]))"
    unfolding take_length_takeWhile drop_length_takeWhile .
  define r where "r = dropWhile (isdecimal D) ?s"
  have hd: "\<not> isdecimal D d" if "r = d # r'" for d r'
    using hd_dropWhile [of "isdecimal D" ?s] that unfolding r_def by (metis list.sel(1) list.distinct(1))
  show ?thesis
    unfolding m match_dot_digits r_def [symmetric]
    by (cases r) (auto simp: hd)
qed

lemma match_plus_no_digit:
  assumes "s = [] \<or> \<not> isdecimal D (hd s)"
  shows "match_here D ((g, Digit, Plus) # as) s = None"
proof -
  have "takeWhile (isdecimal D) s = []"
    using assms by (cases s) auto
  then show ?thesis
    by (simp add: in_cls_Digit)
qed


lemma match_no_digit:
  "\<forall>c\<in>set s. \<not> isdecimal D c \<Longrightarrow> match_here D (as @ number g) s = None"
proof (induction as arbitrary: s)
  case Nil
  then have "s = [] \<or> \<not> isdecimal D (hd s)" by (cases s) auto
  then show ?case
    unfolding number_def append_Nil by (rule match_plus_no_digit)
next
  case (Cons a as)
  obtain h c q where a: "a = (h, c, q)" by (cases a)
  have "match_here D (as @ number g) (drop k s) = None" for k
  proof (rule Cons.IH)
    show "\<forall>c\<in>set (drop k s). \<not> isdecimal D c"
      using Cons.prems by (meson in_set_dropD)
  qed
  then show ?case
    by (simp add: a first_some_None_iff)
qed

lemma re_search_no_digit:
  "\<forall>c\<in>set s. \<not> isdecimal D c \<Longrightarrow> re_search D (as @ number g) s = None"
proof (induction s)
  case Nil
  then show ?case using match_no_digit [of "[]" D as g] by simp
next
  case (Cons c cs)
  then show ?case using match_no_digit [of "c # cs" D as g] by simp
qed

lemma first_number_skip: "\<not> isdecimal D c \<Longrightarrow> first_number D (c # cs) = first_number D cs"
  by (simp add: first_number_def)

lemma first_number_digit:
  "isdecimal D c \<Longrightarrow> first_number D (c # cs) =
     takeWhile (isdecimal D) (c # cs) @
     (case dropWhile (isdecimal D) (c # cs) of [] \<Rightarrow> [] | d # r \<Rightarrow> if d = 46 then [46] else []) @
     (case dropWhile (isdecimal D) (c # cs) of
        [] \<Rightarrow> []
      | d # r \<Rightarrow> if d = 46 then takeWhile (isdecimal D) r else [])"
proof -
  assume d: "isdecimal D c"
  have t: "dropWhile (\<lambda>c. \<not> isdecimal D c) (c # cs) = c # cs" using d by simp
  define r where "r = dropWhile (isdecimal D) (c # cs)"
  show ?thesis
    unfolding first_number_def Let_def t r_def [symmetric]
    by (cases r) simp_all
qed

lemma re_search_number:
  "\<exists>c\<in>set s. isdecimal D c \<Longrightarrow>
   \<exists>m. re_search D (number g) s = Some m \<and> match_group m g = first_number D s"
proof (induction s)
  case Nil
  then show ?case by simp
next
  case (Cons c cs)
  show ?case
  proof (cases "isdecimal D c")
    case True
    show ?thesis
      unfolding re_search.simps match_number_digit [OF True] first_number_digit [OF True]
      by (simp add: match_group_def del: takeWhile.simps dropWhile.simps)
  next
    case False
    then have "match_here D (number g) (c # cs) = None"
      unfolding number_def by (intro match_plus_no_digit) simp
    moreover from False Cons.prems have "\<exists>c\<in>set cs. isdecimal D c" by auto
    ultimately show ?thesis
      using Cons.IH False by (simp add: first_number_skip)
  qed
qed

subsection \<open>Digits of the text searched\<close>

lemma in_set_dropWhile: "x \<in> set xs \<Longrightarrow> \<not> P x \<Longrightarrow> x \<in> set (dropWhile P xs)"
  by (induction xs) auto

lemma in_set_strip: "x \<in> set u \<Longrightarrow> \<not> isspace x \<Longrightarrow> x \<in> set (strip u)"
  by (simp add: strip_def in_set_dropWhile)

lemma set_strip: "set (strip u) \<subseteq> set u"
proof -
  have "set (dropWhile isspace (rev (dropWhile isspace u))) \<subseteq> set (rev (dropWhile isspace u))"
    by (rule set_dropWhileD [THEN subsetI]) 
  also have "\<dots> \<subseteq> set u"
    using set_dropWhileD [of _ isspace u] by auto
  finally show ?thesis by (simp add: strip_def)
qed

lemma in_set_replace: "x \<in> set s \<Longrightarrow> x \<noteq> old \<Longrightarrow> x \<in> set (replace old new s)"
  by (auto simp: replace_def)

lemma set_replace: "set (replace old new s) \<subseteq> set s \<union> set new"
  by (auto simp: replace_def split: if_splits)

lemma isdecimal_ascii:
  "unicode_decimal D \<Longrightarrow> \<not> isdecimal D 60 \<and> \<not> isdecimal D 61 \<and> \<not> isdecimal D 62"
  by (simp add: unicode_decimal_def isdecimal_def ascii_digitsD ascii_decimal_def)

lemma normalized_digits:
  assumes "unicode_decimal D"
  shows "(\<exists>c\<in>set (normalized u). isdecimal D c) \<longleftrightarrow> (\<exists>c\<in>set u. isdecimal D c)"
proof
  assume "\<exists>c\<in>set (normalized u). isdecimal D c"
  then obtain c where c: "c \<in> set (normalized u)" and d: "isdecimal D c" by blast
  from c have "c \<in> set (replace 8804 (ascii ''<='') (strip u)) \<or> c \<in> set (ascii ''>='')"
    unfolding normalized_def
    using set_replace [of 8805 "ascii ''>=''" "replace 8804 (ascii ''<='') (strip u)"] by blast
  then have "c \<in> set (strip u) \<or> c \<in> set (ascii ''<='') \<or> c \<in> set (ascii ''>='')"
    using set_replace [of 8804 "ascii ''<=''" "strip u"] by blast
  moreover have "c \<notin> set (ascii ''<='')" "c \<notin> set (ascii ''>='')"
    using d isdecimal_ascii [OF assms] by (auto simp: ascii_def)
  ultimately have "c \<in> set u" using set_strip by blast
  with d show "\<exists>c\<in>set u. isdecimal D c" by blast
next
  assume "\<exists>c\<in>set u. isdecimal D c"
  then obtain c where c: "c \<in> set u" and d: "isdecimal D c" by blast
  from d assms have "\<not> isspace c" "c \<noteq> 8804" "c \<noteq> 8805"
    by (auto simp: unicode_decimal_def isdecimal_def)
  with c have "c \<in> set (normalized u)"
    unfolding normalized_def by (intro in_set_replace in_set_strip)
  with d show "\<exists>c\<in>set (normalized u). isdecimal D c" by blast
qed

lemma patterns_number:
  "pattern1 = [(1, OneOf [60, 62], One), (0, Space, Star), (0, Lit 61, One), (0, Space, Star)] @ number 2"
  "pattern2 = [(1, OneOf [60, 62], One), (0, Space, Star)] @ number 2"
  "pattern3 = [(0, Lit 40, One), (1, OneOf [60, 62], One), (1, Lit 61, Opt), (0, Space, Star)] @ number 2"
  "number g = [] @ number g"
  by (simp_all add: pattern1_def pattern2_def pattern3_def)

text \<open>
  C4: for a digit table with the properties of Unicode's. If none of the three operator
  patterns matches in the text searched and the input holds a decimal digit, then the number
  pattern matches, its text is the first number of the text (\<open>first_number\<close>), and the
  result is \<open>>=\<close> with that number. If the input holds no decimal digit, no pattern
  matches and the result is \<open>(None, None)\<close>; so it is for a missing cell.
\<close>

theorem parse_threshold_bare_number:
  assumes "unicode_decimal D"
  shows
    "(re_search D pattern1 (normalized u) = None \<and>
      re_search D pattern2 (normalized u) = None \<and>
      re_search D pattern3 (normalized u) = None \<and>
      (\<exists>c\<in>set u. isdecimal D c) \<longrightarrow>
        (\<exists>m. re_search D (number 1) (normalized u) = Some m \<and>
             match_group m 1 = first_number D (normalized u)) \<and>
        parse_threshold D (Some u) =
          Some (ascii ''>='', py_float D (first_number D (normalized u)))) \<and>
     ((\<forall>c\<in>set u. \<not> isdecimal D c) \<longrightarrow>
        re_search D pattern1 (normalized u) = None \<and>
        re_search D pattern2 (normalized u) = None \<and>
        re_search D pattern3 (normalized u) = None \<and>
        re_search D (number 1) (normalized u) = None \<and>
        parse_threshold D (Some u) = None) \<and>
     parse_threshold D None = None"
proof (intro conjI impI)
  assume a: "re_search D pattern1 (normalized u) = None \<and>
      re_search D pattern2 (normalized u) = None \<and>
      re_search D pattern3 (normalized u) = None \<and>
      (\<exists>c\<in>set u. isdecimal D c)"
  then have "\<exists>c\<in>set (normalized u). isdecimal D c"
    using normalized_digits [OF assms] by blast
  from re_search_number [OF this, of 1] obtain m
    where m: "re_search D (number 1) (normalized u) = Some m"
      and g: "match_group m 1 = first_number D (normalized u)" by blast
  then show "\<exists>m. re_search D (number 1) (normalized u) = Some m \<and>
             match_group m 1 = first_number D (normalized u)" by blast
  from a have "u \<noteq> []" by auto
  with a m g show "parse_threshold D (Some u) =
          Some (ascii ''>='', py_float D (first_number D (normalized u)))"
    by (simp add: parse_threshold_priority)
next
  assume "\<forall>c\<in>set u. \<not> isdecimal D c"
  then have n: "\<forall>c\<in>set (normalized u). \<not> isdecimal D c"
    using normalized_digits [OF assms] by blast
  show p1: "re_search D pattern1 (normalized u) = None"
    unfolding patterns_number(1) by (rule re_search_no_digit [OF n])
  show p2: "re_search D pattern2 (normalized u) = None"
    unfolding patterns_number(2) by (rule re_search_no_digit [OF n])
  show p3: "re_search D pattern3 (normalized u) = None"
    unfolding patterns_number(3) by (rule re_search_no_digit [OF n])
  show p4: "re_search D (number 1) (normalized u) = None"
    using re_search_no_digit [OF n, of "[]" 1] by simp
  from p1 p2 p3 p4 show "parse_threshold D (Some u) = None"
    by (simp add: parse_threshold_priority)
next
  show "parse_threshold D None = None"
    by (simp add: parse_threshold_def)
qed

lemma unicode_decimal_ascii_decimal: "unicode_decimal ascii_decimal"
  by (auto simp: unicode_decimal_def ascii_digits_def ascii_decimal_def isspace_def)

theorem parse_threshold_bare_number_witness:
  "unicode_decimal ascii_decimal \<and>
   re_search ascii_decimal pattern1 (normalized (ascii '' 12.5 casos '')) = None \<and>
   re_search ascii_decimal pattern2 (normalized (ascii '' 12.5 casos '')) = None \<and>
   re_search ascii_decimal pattern3 (normalized (ascii '' 12.5 casos '')) = None \<and>
   isdecimal ascii_decimal 49 \<and> 49 \<in> set (ascii '' 12.5 casos '') \<and>
   parse_threshold ascii_decimal (Some (ascii '' 12.5 casos '')) = Some (ascii ''>='', 25 / 2) \<and>
   parse_threshold ascii_decimal (Some (ascii ''sin umbral'')) = None"
proof -
  have p: "re_search ascii_decimal pattern1 (normalized (ascii '' 12.5 casos '')) = None"
    "re_search ascii_decimal pattern2 (normalized (ascii '' 12.5 casos '')) = None"
    "re_search ascii_decimal pattern3 (normalized (ascii '' 12.5 casos '')) = None"
    by (simp_all add: ascii_decimal_def parse_defs)
  have d: "isdecimal ascii_decimal 49" "49 \<in> set (ascii '' 12.5 casos '')"
    by (simp_all add: ascii_decimal_def isdecimal_def ascii_def)
  have f: "py_float ascii_decimal (first_number ascii_decimal (normalized (ascii '' 12.5 casos ''))) = 25 / 2"
    by (simp add: first_number_def ascii_decimal_def parse_defs)
  have n: "\<forall>c\<in>set (ascii ''sin umbral''). \<not> isdecimal ascii_decimal c"
    by (simp add: ascii_decimal_def isdecimal_def ascii_def)
  from parse_threshold_bare_number [OF unicode_decimal_ascii_decimal, of "ascii '' 12.5 casos ''"]
    parse_threshold_bare_number [OF unicode_decimal_ascii_decimal, of "ascii ''sin umbral''"]
    p d f n unicode_decimal_ascii_decimal
  show ?thesis by metis
qed

section \<open>Properties of \<open>aplicar_multiplicador_urgencia\<close>\<close>

lemma niveles: "fst ` set MULTIPLICADORES_URGENCIA =
    {ascii ''bajo_riesgo'', ascii ''riesgo_moderado'', ascii ''alto_riesgo'', ascii ''emergencia''}"
  by (simp add: MULTIPLICADORES_URGENCIA_def insert_commute)

lemma nivel_unknown:
  "nivel_riesgo \<notin> {ascii ''bajo_riesgo'', ascii ''riesgo_moderado'', ascii ''alto_riesgo'', ascii ''emergencia''}
   \<longleftrightarrow> map_of MULTIPLICADORES_URGENCIA nivel_riesgo = None"
  by (simp only: map_of_eq_None_iff niveles)

text \<open>
  C10: with a severity level that is none of the four keys of \<open>MULTIPLICADORES_URGENCIA\<close>,
  \<open>aplicar_multiplicador_urgencia\<close> returns the scores it was given: no multiplier,
  no division by the maximum, no error.
\<close>

theorem unknown_nivel_unchanged:
  assumes "nivel_riesgo \<notin>
    {ascii ''bajo_riesgo'', ascii ''riesgo_moderado'', ascii ''alto_riesgo'', ascii ''emergencia''}"
  shows "aplicar_multiplicador_urgencia lower scores strategy_names nivel_riesgo contexto_escenario
    = scores"
  using assms unfolding nivel_unknown
  by (simp add: aplicar_multiplicador_urgencia_def)

theorem unknown_nivel_unchanged_witness:
  "ascii ''pandemia'' \<notin>
    {ascii ''bajo_riesgo'', ascii ''riesgo_moderado'', ascii ''alto_riesgo'', ascii ''emergencia''} \<and>
   aplicar_multiplicador_urgencia ascii_lower [3 / 10, 9 / 10] [ascii ''A'', ascii ''B'']
     (ascii ''pandemia'') (Some (ascii ''lluvias_intensas'')) = [3 / 10, 9 / 10]"
proof -
  have n: "ascii ''pandemia'' \<notin>
    {ascii ''bajo_riesgo'', ascii ''riesgo_moderado'', ascii ''alto_riesgo'', ascii ''emergencia''}"
    by (simp add: ascii_def)
  from unknown_nivel_unchanged [OF n] n show ?thesis by blast
qed

































section \<open>Properties of the final ranks\<close>

lemma fold_rank_nth:
  assumes "distinct idxs" and "\<forall>x\<in>set idxs. x < length r0"
  shows "length (fold (\<lambda>(rank, idx) ranks. ranks[idx := rank]) (zip [a..<a + length idxs] idxs) r0)
           = length r0 \<and>
     (\<forall>k<length idxs.
        fold (\<lambda>(rank, idx) ranks. ranks[idx := rank]) (zip [a..<a + length idxs] idxs) r0
          ! (idxs ! k) = a + k) \<and>
     (\<forall>i. i \<notin> set idxs \<longrightarrow>
        fold (\<lambda>(rank, idx) ranks. ranks[idx := rank]) (zip [a..<a + length idxs] idxs) r0 ! i
          = r0 ! i)"
  using assms
proof (induction idxs arbitrary: a r0)
  case Nil
  then show ?case by simp
next
  case (Cons x xs)
  let ?f = "\<lambda>(rank, idx) ranks. ranks[idx := rank]"
  let ?r1 = "r0[x := a]"
  have up: "[a..<a + length (x # xs)] = a # [Suc a..<Suc a + length xs]"
    by (simp add: upt_rec)
  have step: "fold ?f (zip [a..<a + length (x # xs)] (x # xs)) r0
      = fold ?f (zip [Suc a..<Suc a + length xs] xs) ?r1"
    unfolding up by simp
  have d: "distinct xs" and xn: "x \<notin> set xs" using Cons.prems(1) by simp_all
  have b: "\<forall>y\<in>set xs. y < length ?r1" using Cons.prems(2) by simp
  have xl: "x < length r0" using Cons.prems(2) by simp
  note IH = Cons.IH [OF d b, of "Suc a"]
  have len: "length (fold ?f (zip [Suc a..<Suc a + length xs] xs) ?r1) = length r0"
    using IH by simp
  have at: "fold ?f (zip [Suc a..<Suc a + length xs] xs) ?r1 ! (xs ! k) = Suc a + k"
    if "k < length xs" for k using IH that by blast
  have other: "fold ?f (zip [Suc a..<Suc a + length xs] xs) ?r1 ! i = ?r1 ! i"
    if "i \<notin> set xs" for i using IH that by blast
  have k: "fold ?f (zip [Suc a..<Suc a + length xs] xs) ?r1 ! ((x # xs) ! k) = a + k"
    if "k < length (x # xs)" for k
  proof (cases k)
    case 0
    then show ?thesis using other [OF xn] xl by simp
  next
    case (Suc k')
    then show ?thesis using at [of k'] that by simp
  qed
  have o: "fold ?f (zip [Suc a..<Suc a + length xs] xs) ?r1 ! i = r0 ! i"
    if "i \<notin> set (x # xs)" for i
    using other [of i] that by simp
  show ?case
    unfolding step using len k o by blast
qed

lemma argsort_perm:
  assumes "mset A = mset [0..<N]"
  shows "distinct A" and "set A = {0..<N}" and "length A = N"
proof -
  show "distinct A" using assms by (metis distinct_upt mset_eq_imp_distinct_iff)
  show "set A = {0..<N}" using assms by (metis mset_eq_setD set_upt)
  show "length A = N" using assms by (metis length_upt mset_eq_length minus_nat.diff_0)
qed

lemma ranks_nth:
  assumes "mset (argsort xs) = mset [0..<length xs]"
  shows "length (ranks_ajustados argsort xs) = length xs"
    and "k < length xs \<Longrightarrow> ranks_ajustados argsort xs ! (argsort xs ! k) = length xs - k"
proof -
  let ?A = "argsort xs"
  let ?N = "length xs"
  note p = argsort_perm [OF assms]
  have d: "distinct (rev ?A)" using p(1) by simp
  have b: "\<forall>x\<in>set (rev ?A). x < length (replicate ?N (0::nat))" using p(2) by simp
  have r: "ranks_ajustados argsort xs =
      fold (\<lambda>(rank, idx) ranks. ranks[idx := rank]) (zip [1..<1 + length (rev ?A)] (rev ?A))
        (replicate ?N 0)"
    by (simp add: ranks_ajustados_def Let_def)
  note F = fold_rank_nth [OF d b, of 1, folded r]
  show "length (ranks_ajustados argsort xs) = ?N" using F by simp
  show "ranks_ajustados argsort xs ! (?A ! k) = ?N - k" if k: "k < ?N"
  proof -
    have k': "?N - 1 - k < length (rev ?A)" using k p(3) by simp
    have "rev ?A ! (?N - 1 - k) = ?A ! k"
      using k p(3) by (simp add: rev_nth)
    moreover have "ranks_ajustados argsort xs ! (rev ?A ! (?N - 1 - k)) = 1 + (?N - 1 - k)"
      using F k' by blast
    ultimately show ?thesis using k by simp
  qed
qed

lemma ranks_perm:
  assumes "mset (argsort xs) = mset [0..<length xs]"
  shows "mset (ranks_ajustados argsort xs) = mset [1..<Suc (length xs)]"
proof -
  let ?A = "argsort xs"
  let ?N = "length xs"
  let ?R = "ranks_ajustados argsort xs"
  note p = argsort_perm [OF assms]
  note n = ranks_nth [of argsort xs, OF assms]
  have "?R = map (\<lambda>i. ?R ! i) [0..<?N]"
    using n(1) by (metis map_nth)
  then have "mset ?R = image_mset (\<lambda>i. ?R ! i) (mset [0..<?N])"
    by (metis mset_map)
  also have "\<dots> = image_mset (\<lambda>i. ?R ! i) (mset ?A)" using assms by simp
  also have "\<dots> = mset (map (\<lambda>i. ?R ! i) ?A)" by simp
  also have "map (\<lambda>i. ?R ! i) ?A = map (\<lambda>k. ?N - k) [0..<?N]"
  proof (rule nth_equalityI)
    show "length (map (\<lambda>i. ?R ! i) ?A) = length (map (\<lambda>k. ?N - k) [0..<?N])"
      using p(3) by simp
  next
    fix k assume "k < length (map (\<lambda>i. ?R ! i) ?A)"
    then have k: "k < ?N" using p(3) by simp
    then show "map (\<lambda>i. ?R ! i) ?A ! k = map (\<lambda>k. ?N - k) [0..<?N] ! k"
      using n(2) [OF k] p(3) by simp
  qed
  also have "map (\<lambda>k. ?N - k) [0..<?N] = rev [1..<Suc ?N]"
  proof (rule nth_equalityI)
    show "length (map (\<lambda>k. ?N - k) [0..<?N]) = length (rev [1..<Suc ?N])"
      by (simp del: upt_Suc)
  next
    fix k assume "k < length (map (\<lambda>k. ?N - k) [0..<?N])"
    then have k: "k < ?N" by simp
    then show "map (\<lambda>k. ?N - k) [0..<?N] ! k = rev [1..<Suc ?N] ! k"
      by (simp add: rev_nth del: upt_Suc)
  qed
  finally show ?thesis by simp
qed

lemma ranks_descending:
  assumes p: "mset (argsort xs) = mset [0..<length xs]"
    and s: "sorted (map (\<lambda>i. xs ! i) (argsort xs))"
    and i: "i < length xs" and j: "j < length xs" and lt: "xs ! j < xs ! i"
  shows "ranks_ajustados argsort xs ! i < ranks_ajustados argsort xs ! j"
proof -
  let ?A = "argsort xs"
  let ?N = "length xs"
  note q = argsort_perm [OF p]
  from i q obtain a where a: "a < ?N" "?A ! a = i"
    by (metis atLeastLessThan_iff in_set_conv_nth le0)
  from j q obtain b where b: "b < ?N" "?A ! b = j"
    by (metis atLeastLessThan_iff in_set_conv_nth le0)
  have "b < a"
  proof (rule ccontr)
    assume "\<not> b < a"
    then have ab: "a \<le> b" by simp
    have "map (\<lambda>i. xs ! i) ?A ! a \<le> map (\<lambda>i. xs ! i) ?A ! b"
      by (rule sorted_nth_mono [OF s ab]) (simp add: b(1) q(3))
    then have "xs ! i \<le> xs ! j" using a b q(3) by simp
    with lt show False by simp
  qed
  moreover have "ranks_ajustados argsort xs ! i = ?N - a"
    using ranks_nth(2) [of argsort xs, OF p a(1)] a(2) by simp
  moreover have "ranks_ajustados argsort xs ! j = ?N - b"
    using ranks_nth(2) [of argsort xs, OF p b(1)] b(2) by simp
  ultimately show ?thesis using a(1) by simp
qed

lemma argsort_ok_stable: "argsort_ok stable_argsort"
  by (simp add: argsort_ok_def stable_argsort_def)


lemma insort_key_lex:
  fixes f :: "nat \<Rightarrow> real"
  assumes "sorted_wrt (\<lambda>a b. f a < f b \<or> (f a = f b \<and> a < b)) ys" and "\<forall>y\<in>set ys. x < y"
  shows "sorted_wrt (\<lambda>a b. f a < f b \<or> (f a = f b \<and> a < b)) (insort_key f x ys)"
  using assms
proof (induction ys)
  case Nil
  then show ?case by simp
next
  case (Cons y ys)
  show ?case
  proof (cases "f x \<le> f y")
    case True
    have "f x < f z \<or> (f x = f z \<and> x < z)" if "z \<in> set (y # ys)" for z
    proof -
      have "f y \<le> f z" using Cons.prems(1) that by auto
      moreover have "x < z" using Cons.prems(2) that by blast
      ultimately show ?thesis using True by linarith
    qed
    then show ?thesis using True Cons.prems(1) by simp
  next
    case False
    have "sorted_wrt (\<lambda>a b. f a < f b \<or> (f a = f b \<and> a < b)) (insort_key f x ys)"
      using Cons by simp
    moreover have "f y < f z \<or> (f y = f z \<and> y < z)" if "z \<in> set (insort_key f x ys)" for z
      using that False Cons.prems(1) by (auto simp: set_insort_key)
    ultimately show ?thesis using False by simp
  qed
qed

lemma sort_key_lex:
  fixes f :: "nat \<Rightarrow> real"
  assumes "sorted_wrt (<) xs"
  shows "sorted_wrt (\<lambda>a b. f a < f b \<or> (f a = f b \<and> a < b)) (sort_key f xs)"
  using assms
proof (induction xs)
  case Nil
  then show ?case by simp
next
  case (Cons x xs)
  have "sorted_wrt (\<lambda>a b. f a < f b \<or> (f a = f b \<and> a < b)) (sort_key f xs)"
    using Cons by simp
  moreover have "\<forall>y\<in>set (sort_key f xs). x < y" using Cons.prems by simp
  ultimately show ?case by (simp add: insort_key_lex)
qed

lemma stable_argsort_lex:
  "sorted_wrt (\<lambda>a b. xs ! a < xs ! b \<or> (xs ! a = xs ! b \<and> a < b)) (stable_argsort xs)"
  unfolding stable_argsort_def by (rule sort_key_lex) simp

lemma stable_ties:
  assumes ij: "i < j" and j: "j < length xs" and e: "xs ! i = xs ! j"
  shows "ranks_ajustados stable_argsort xs ! j < ranks_ajustados stable_argsort xs ! i"
proof -
  let ?A = "stable_argsort xs"
  let ?N = "length xs"
  have p: "mset ?A = mset [0..<?N]" by (simp add: stable_argsort_def)
  note q = argsort_perm [OF p]
  have i: "i < ?N" using ij j by simp
  from i q obtain a where a: "a < ?N" "?A ! a = i"
    by (metis atLeastLessThan_iff in_set_conv_nth le0)
  from j q obtain b where b: "b < ?N" "?A ! b = j"
    by (metis atLeastLessThan_iff in_set_conv_nth le0)
  have "a < b"
  proof (rule ccontr)
    assume "\<not> a < b"
    moreover have "a \<noteq> b" using a(2) b(2) ij by auto
    ultimately have ba: "b < a" by simp
    have "xs ! (?A ! b) < xs ! (?A ! a) \<or> (xs ! (?A ! b) = xs ! (?A ! a) \<and> ?A ! b < ?A ! a)"
      using sorted_wrt_nth_less [OF stable_argsort_lex [of xs] ba] a(1) q(3) by simp
    then show False using a(2) b(2) e ij by simp
  qed
  moreover have "ranks_ajustados stable_argsort xs ! i = ?N - a"
    using ranks_nth(2) [of stable_argsort xs, OF p a(1)] a(2) by simp
  moreover have "ranks_ajustados stable_argsort xs ! j = ?N - b"
    using ranks_nth(2) [of stable_argsort xs, OF p b(1)] b(2) by simp
  ultimately show ?thesis using b(1) by simp
qed

text \<open>
  C9: for every \<open>argsort\<close> that meets numpy's contract, the final ranks have the length
  of the adjusted scores, have no duplicates and are exactly the numbers 1..N; a strategy
  with a strictly greater adjusted score has a strictly smaller rank; and the strategy at
  position \<open>k\<close> of \<open>argsort\<close>'s result has rank \<open>N - k\<close>, so among equal scores the
  ranks follow the reverse of \<open>argsort\<close>'s order. Equal scores are therefore not ranked
  in input order: with the \<open>argsort\<close> that keeps equal values in index order, of two
  strategies with the same adjusted score the later one of the input has the better rank.
\<close>

theorem ranks_ajustados_permutation:
  assumes "argsort_ok argsort"
  shows "length (ranks_ajustados argsort scores) = length scores \<and>
     distinct (ranks_ajustados argsort scores) \<and>
     set (ranks_ajustados argsort scores) = {1..length scores} \<and>
     (\<forall>i<length scores. \<forall>j<length scores. scores ! j < scores ! i \<longrightarrow>
        ranks_ajustados argsort scores ! i < ranks_ajustados argsort scores ! j) \<and>
     (\<forall>k<length scores.
        ranks_ajustados argsort scores ! (argsort scores ! k) = length scores - k) \<and>
     argsort_ok stable_argsort \<and>
     (\<forall>i j. i < j \<and> j < length scores \<and> scores ! i = scores ! j \<longrightarrow>
        ranks_ajustados stable_argsort scores ! j < ranks_ajustados stable_argsort scores ! i)"
proof -
  have p: "mset (argsort scores) = mset [0..<length scores]"
    and s: "sorted (map (\<lambda>i. scores ! i) (argsort scores))"
    using assms by (simp_all add: argsort_ok_def)
  have m: "mset (ranks_ajustados argsort scores) = mset [1..<Suc (length scores)]"
    by (rule ranks_perm [of argsort scores, OF p])
  have d: "distinct (ranks_ajustados argsort scores)"
    using m by (metis distinct_upt mset_eq_imp_distinct_iff)
  have "set (ranks_ajustados argsort scores) = set [1..<Suc (length scores)]"
    using m by (rule mset_eq_setD)
  then have st: "set (ranks_ajustados argsort scores) = {1..length scores}"
    by (simp only: set_upt atLeastLessThanSuc_atLeastAtMost)
  have l: "length (ranks_ajustados argsort scores) = length scores"
    by (rule ranks_nth(1) [of argsort scores, OF p])
  have n: "\<forall>k<length scores.
        ranks_ajustados argsort scores ! (argsort scores ! k) = length scores - k"
    using ranks_nth(2) [of argsort scores, OF p] by blast
  have o: "\<forall>i<length scores. \<forall>j<length scores. scores ! j < scores ! i \<longrightarrow>
        ranks_ajustados argsort scores ! i < ranks_ajustados argsort scores ! j"
    using ranks_descending [of argsort scores, OF p s] by blast
  have t: "\<forall>i j. i < j \<and> j < length scores \<and> scores ! i = scores ! j \<longrightarrow>
        ranks_ajustados stable_argsort scores ! j < ranks_ajustados stable_argsort scores ! i"
    using stable_ties by blast
  show ?thesis using l d st o n argsort_ok_stable t by blast
qed

theorem ranks_ajustados_permutation_witness:
  "argsort_ok stable_argsort \<and>
   ranks_ajustados stable_argsort [1 / 5, 1, 1 / 2, 1] = [4, 2, 3, 1] \<and>
   distinct (ranks_ajustados stable_argsort [1 / 5, 1, 1 / 2, 1]) \<and>
   set (ranks_ajustados stable_argsort [1 / 5, 1, 1 / 2, 1]) = {1..4}"
proof -
  have e: "ranks_ajustados stable_argsort [1 / 5, 1, 1 / 2, 1] = [4, 2, 3, 1]"
    by (simp add: ranks_ajustados_def stable_argsort_def)
  have a: "argsort_ok stable_argsort" by (rule argsort_ok_stable)
  show ?thesis
    using ranks_ajustados_permutation [OF a, of "[1 / 5, 1, 1 / 2, 1]"] a e by simp
qed

theorem ranks_ajustados_tie_counterexample:
  "argsort_ok stable_argsort \<and>
   ranks_ajustados stable_argsort [1, 1] = [2, 1] \<and>
   rank_stable_by_input_order [1, 1] = [1, 2]"
  using argsort_ok_stable
  by (simp add: ranks_ajustados_def stable_argsort_def rank_stable_by_input_order_def)

end
